theory Spec2Isabelle
  imports Complex_Main
begin

section \<open>Python values reaching the converter\<close>

subsection \<open>Binary64 floating point\<close>

text \<open>
  A Python \<open>float\<close> (and a numpy \<open>float64\<close>) is an IEEE 754 binary64 value.
  \<open>Finite s m e\<close> stands for \<open>(-1)\<^sup>s * m * 2\<^sup>e\<close>; the sign is kept for zero as well,
  since \<open>-0.0\<close> prints with its sign.
\<close>

datatype float64 = Finite bool nat int | Infinity bool | NaN

text \<open>The number of binary digits of \<open>n\<close> (Python's \<open>n.bit_length()\<close>).\<close>

fun bit_length :: "nat \<Rightarrow> nat" where
  "bit_length n = (if n = 0 then 0 else Suc (bit_length (n div 2)))"

declare bit_length.simps [simp del]

text \<open>\<open>floor_log2 p q\<close> is \<open>\<lfloor>log\<^sub>2 (p / q)\<rfloor>\<close> for positive \<open>p\<close> and \<open>q\<close>.\<close>

definition floor_log2 :: "nat \<Rightarrow> nat \<Rightarrow> int" where
  "floor_log2 p q =
     (let d = int (bit_length p) - int (bit_length q)
      in if q * 2 ^ nat d \<le> p * 2 ^ nat (- d) then d else d - 1)"

text \<open>The integer nearest to \<open>a / b\<close>, a tie going to the even neighbour.\<close>

definition round_half_even :: "nat \<Rightarrow> nat \<Rightarrow> nat" where
  "round_half_even a b =
     (let q = a div b; r = a mod b
      in if 2 * r < b then q
         else if b < 2 * r then q + 1
         else if even q then q else q + 1)"

text \<open>
  \<open>round_double s p q\<close> is the binary64 value nearest to \<open>(-1)\<^sup>s * p / q\<close> (round to
  nearest, ties to even): 53 significant bits, the exponent of the last place not below
  \<open>-1074\<close>, and \<open>Infinity\<close> once the rounded magnitude reaches \<open>2\<^sup>1\<^sup>0\<^sup>2\<^sup>4\<close>.
\<close>

definition round_double :: "bool \<Rightarrow> nat \<Rightarrow> nat \<Rightarrow> float64" where
  "round_double s p q =
     (if p = 0 then Finite s 0 0
      else
        let e = max (floor_log2 p q - 52) (- 1074);
            m = round_half_even (p * 2 ^ nat (- e)) (q * 2 ^ nat e)
        in if m = 0 then Finite s 0 0
           else if m = 2 ^ 53 then (if 971 \<le> e then Infinity s else Finite s (2 ^ 52) (e + 1))
           else if 971 < e then Infinity s
           else Finite s m e)"

text \<open>Multiplication of two floats: exact product, rounded once; no exception is raised.\<close>

fun fmul :: "float64 \<Rightarrow> float64 \<Rightarrow> float64" where
  "fmul NaN y = NaN"
| "fmul x NaN = NaN"
| "fmul (Infinity s) (Infinity t) = Infinity (s \<noteq> t)"
| "fmul (Infinity s) (Finite t n f) = (if n = 0 then NaN else Infinity (s \<noteq> t))"
| "fmul (Finite s m e) (Infinity t) = (if m = 0 then NaN else Infinity (s \<noteq> t))"
| "fmul (Finite s m e) (Finite t n f) =
     round_double (s \<noteq> t) (m * n * 2 ^ nat (e + f)) (2 ^ nat (- (e + f)))"

subsection \<open>Decimal text\<close>

definition digit_char :: "nat \<Rightarrow> char" where
  "digit_char d = ''0123456789'' ! (d mod 10)"

fun show_nat :: "nat \<Rightarrow> string" where
  "show_nat n = (if n < 10 then [digit_char n] else show_nat (n div 10) @ [digit_char n])"

declare show_nat.simps [simp del]

text \<open>The six decimal digits of \<open>k\<close>, with leading zeros.\<close>

definition six_digits :: "nat \<Rightarrow> string" where
  "six_digits k = map (\<lambda>i. digit_char (k div 10 ^ i)) [5, 4, 3, 2, 1, 0]"

text \<open>
  The format specification \<open>.6f\<close> on a float: the exact value rounded (ties to even) to
  six decimal places; \<open>inf\<close> and \<open>nan\<close> for the values that are not finite.
\<close>

definition format_6f :: "float64 \<Rightarrow> string" where
  "format_6f x =
     (case x of
        NaN \<Rightarrow> ''nan''
      | Infinity s \<Rightarrow> (if s then ''-inf'' else ''inf'')
      | Finite s m e \<Rightarrow>
          (let n = round_half_even (m * 2 ^ nat e * 10 ^ 6) (2 ^ nat (- e))
           in (if s then ''-'' else []) @ show_nat (n div 10 ^ 6) @ ''.'' @ six_digits (n mod 10 ^ 6)))"

subsection \<open>Parsed JSON documents\<close>

text \<open>
  What \<open>json.loads\<close> hands to the converter: \<open>None\<close>, \<open>bool\<close>, \<open>int\<close>,
  \<open>float\<close>, \<open>str\<close>, \<open>list\<close> and \<open>dict\<close> (string keys; the first binding
  of a key is its value).
\<close>

datatype json =
    JNull
  | JBool bool
  | JInt int
  | JFloat float64
  | JStr string
  | JList "json list"
  | JDict "(string \<times> json) list"

subsection \<open>Exceptions\<close>

datatype exn =
    KeyError json
  | IndexError
  | TypeError
  | OverflowError
  | ZeroDivisionError

text \<open>
  The converter catches every exception and raises
  \<open>ValueError("Error processing JSON: " + str(e))\<close>; the caught exception stands for
  the message.
\<close>

datatype error = ValueError exn

fun and_then :: "'e + 'a \<Rightarrow> ('a \<Rightarrow> 'e + 'b) \<Rightarrow> 'e + 'b" where
  "and_then (Inl e) f = Inl e"
| "and_then (Inr x) f = f x"

subsection \<open>Operators\<close>

text \<open>\<open>obj[k]\<close> for a string \<open>k\<close>.\<close>

fun getitem_str :: "json \<Rightarrow> string \<Rightarrow> exn + json" where
  "getitem_str (JDict kvs) k =
     (case map_of kvs k of None \<Rightarrow> Inl (KeyError (JStr k)) | Some v \<Rightarrow> Inr v)"
| "getitem_str v k = Inl TypeError"

text \<open>\<open>obj[i]\<close> for an integer literal \<open>i \<ge> 0\<close>.\<close>

fun getitem_int :: "json \<Rightarrow> nat \<Rightarrow> exn + json" where
  "getitem_int (JList xs) i = (if i < length xs then Inr (xs ! i) else Inl IndexError)"
| "getitem_int (JStr s) i = (if i < length s then Inr (JStr [s ! i]) else Inl IndexError)"
| "getitem_int (JDict kvs) i = Inl (KeyError (JInt (int i)))"
| "getitem_int v i = Inl TypeError"

text \<open>
  True division of two Python integers (\<open>a / b\<close>): the correctly rounded quotient, or
  an exception.
\<close>

definition int_truediv :: "int \<Rightarrow> int \<Rightarrow> exn + float64" where
  "int_truediv a b =
     (if b = 0 then Inl ZeroDivisionError
      else case round_double ((a < 0) \<noteq> (b < 0)) (nat \<bar>a\<bar>) (nat \<bar>b\<bar>) of
             Infinity s \<Rightarrow> Inl OverflowError
           | x \<Rightarrow> Inr x)"

text \<open>Conversion of a Python integer to a float: \<open>OverflowError\<close> when it is too large.\<close>

definition int_to_float :: "int \<Rightarrow> exn + float64" where
  "int_to_float n =
     (case round_double (n < 0) (nat \<bar>n\<bar>) 1 of
        Infinity s \<Rightarrow> Inl OverflowError
      | x \<Rightarrow> Inr x)"

text \<open>
  The operand conversion of \<open>float.__mul__\<close>: a float as it is, an integer (and a
  \<open>bool\<close>, which is one) converted; for anything else the multiplication is a
  \<open>TypeError\<close>.
\<close>

fun to_double :: "json \<Rightarrow> exn + float64" where
  "to_double (JFloat y) = Inr y"
| "to_double (JInt n) = int_to_float n"
| "to_double (JBool b) = int_to_float (if b then 1 else 0)"
| "to_double v = Inl TypeError"

text \<open>\<open>x * v\<close> for a float \<open>x\<close>.\<close>

definition float_mul :: "float64 \<Rightarrow> json \<Rightarrow> exn + float64" where
  "float_mul x v = and_then (to_double v) (\<lambda>y. Inr (fmul x y))"

text \<open>
  The text an f-string puts for a value. For a string it is the string itself; for any
  other value it is Python's \<open>str\<close> of it, which is taken as the parameter \<open>py_str\<close>.
\<close>

definition format_value :: "(json \<Rightarrow> string) \<Rightarrow> json \<Rightarrow> string" where
  "format_value py_str v = (case v of JStr s \<Rightarrow> s | _ \<Rightarrow> py_str v)"

section \<open>The converter\<close>

text \<open>
  The two objects the function creates and mutates: the numpy array \<open>lut\<close> of shape
  \<open>(33, 33, 33, 3)\<close>, read and written one cell \<open>lut[r, g, b]\<close> at a time, and the
  text buffer \<open>output\<close> (its contents are \<open>output_text\<close>).
\<close>

type_synonym rgb = "float64 \<times> float64 \<times> float64"

record frame =
  lut :: "nat \<times> nat \<times> nat \<Rightarrow> rgb"
  output_text :: string

definition lut_size :: nat where
  "lut_size = 33"

definition np_zeros :: "nat \<times> nat \<times> nat \<Rightarrow> rgb" where
  "np_zeros = (\<lambda>c. (Finite False 0 0, Finite False 0 0, Finite False 0 0))"

definition apply_color_balance :: "float64 \<Rightarrow> float64 \<Rightarrow> float64 \<Rightarrow> json \<Rightarrow> exn + rgb" where
  "apply_color_balance r g b balance =
     and_then (getitem_int balance 0) (\<lambda>b0.
     and_then (float_mul r b0) (\<lambda>r_adj.
     and_then (getitem_int balance 1) (\<lambda>b1.
     and_then (float_mul g b1) (\<lambda>g_adj.
     and_then (getitem_int balance 1) (\<lambda>b1'.
     and_then (float_mul b b1') (\<lambda>b_adj.
     Inr (r_adj, g_adj, b_adj)))))))"

text \<open>A \<open>for\<close> loop over the indices \<open>is\<close>; an exception in the body ends it.\<close>

fun for_each :: "nat list \<Rightarrow> (nat \<Rightarrow> 's \<Rightarrow> exn + 's) \<Rightarrow> 's \<Rightarrow> exn + 's" where
  "for_each [] body \<sigma> = Inr \<sigma>"
| "for_each (i # rest) body \<sigma> = and_then (body i \<sigma>) (for_each rest body)"

text \<open>The body of the innermost loop that fills the table.\<close>

definition fill_cell :: "json \<Rightarrow> nat \<Rightarrow> nat \<Rightarrow> nat \<Rightarrow> frame \<Rightarrow> exn + frame" where
  "fill_cell json_data r g b \<sigma> =
     and_then (int_truediv (int r) (int lut_size - 1)) (\<lambda>r_val.
     and_then (int_truediv (int g) (int lut_size - 1)) (\<lambda>g_val.
     and_then (int_truediv (int b) (int lut_size - 1)) (\<lambda>b_val.
     and_then (getitem_str json_data ''data'') (\<lambda>d.
     and_then (getitem_str d ''s'') (\<lambda>s.
     and_then (getitem_str s ''colorBalance'') (\<lambda>balance.
     and_then (apply_color_balance r_val g_val b_val balance) (\<lambda>adj.
     Inr (\<sigma>\<lparr>lut := (lut \<sigma>)((r, g, b) := adj)\<rparr>))))))))"

definition output_write :: "string \<Rightarrow> frame \<Rightarrow> frame" where
  "output_write text \<sigma> = \<sigma>\<lparr>output_text := output_text \<sigma> @ text\<rparr>"

definition data_line :: "rgb \<Rightarrow> string" where
  "data_line v =
     (case v of (r_val, g_val, b_val) \<Rightarrow>
        format_6f r_val @ '' '' @ format_6f g_val @ '' '' @ format_6f b_val @ [CHR 0x0A])"

text \<open>The body of the innermost loop that writes the table.\<close>

definition write_cell :: "nat \<Rightarrow> nat \<Rightarrow> nat \<Rightarrow> frame \<Rightarrow> exn + frame" where
  "write_cell r g b \<sigma> = Inr (output_write (data_line (lut \<sigma> (r, g, b))) \<sigma>)"

text \<open>The loop nest that fills the table (\<open># Fill the LUT\<close>).\<close>

definition fill_lut :: "json \<Rightarrow> frame \<Rightarrow> exn + frame" where
  "fill_lut json_data \<sigma> =
     for_each [0..<lut_size] (\<lambda>r.
       for_each [0..<lut_size] (\<lambda>g.
         for_each [0..<lut_size] (\<lambda>b. fill_cell json_data r g b))) \<sigma>"

text \<open>The loop nest that writes the table, one line for each cell.\<close>

definition write_lut :: "frame \<Rightarrow> exn + frame" where
  "write_lut \<sigma> =
     for_each [0..<lut_size] (\<lambda>r.
       for_each [0..<lut_size] (\<lambda>g.
         for_each [0..<lut_size] (\<lambda>b. write_cell r g b))) \<sigma>"

text \<open>
  The \<open>try\<close> block, run in a frame \<open>\<sigma>\<^sub>0\<close> that holds whatever the two objects held
  before; both are created anew before they are used.
\<close>

definition try_block :: "(json \<Rightarrow> string) \<Rightarrow> json \<Rightarrow> frame \<Rightarrow> exn + string \<times> json" where
  "try_block py_str json_data \<sigma>\<^sub>0 =
     (let \<sigma>\<^sub>1 = \<sigma>\<^sub>0\<lparr>lut := np_zeros\<rparr> in
      and_then (fill_lut json_data \<sigma>\<^sub>1) (\<lambda>\<sigma>\<^sub>2.
      let \<sigma>\<^sub>3 = \<sigma>\<^sub>2\<lparr>output_text := []\<rparr> in
      and_then (getitem_str json_data ''name'') (\<lambda>name.
      let \<sigma>\<^sub>4 = output_write (''TITLE '' @ [CHR 0x22] @ format_value py_str name @ [CHR 0x22, CHR 0x0A]) \<sigma>\<^sub>3;
          \<sigma>\<^sub>5 = output_write (''LUT_3D_SIZE '' @ show_nat lut_size @ [CHR 0x0A]) \<sigma>\<^sub>4 in
      and_then (write_lut \<sigma>\<^sub>5) (\<lambda>\<sigma>\<^sub>6.
      and_then (getitem_str json_data ''name'') (\<lambda>name'.
      Inr (output_text \<sigma>\<^sub>6, name'))))))"

definition convert_json_to_lut :: "(json \<Rightarrow> string) \<Rightarrow> json \<Rightarrow> frame \<Rightarrow> error + string \<times> json" where
  "convert_json_to_lut py_str json_data \<sigma> =
     (case try_block py_str json_data \<sigma> of
        Inl e \<Rightarrow> Inl (ValueError e)
      | Inr result \<Rightarrow> Inr result)"

text \<open>The name under which \<open>download\<close> offers the file.\<close>

definition download_name :: "string \<Rightarrow> string" where
  "download_name filename =
     map (\<lambda>c. if c = CHR '' '' then CHR ''_'' else c) filename @ ''.cube''"

section \<open>Notions used in the statements\<close>

subsection \<open>What the table holds\<close>

text \<open>The expression \<open>json_data["data"]["s"]["colorBalance"]\<close>.\<close>

definition color_balance :: "json \<Rightarrow> exn + json" where
  "color_balance json_data =
     and_then (getitem_str json_data ''data'') (\<lambda>d.
     and_then (getitem_str d ''s'') (\<lambda>s.
     getitem_str s ''colorBalance''))"

text \<open>
  The two factors that reach the multiplications, \<open>balance[0]\<close> and \<open>balance[1]\<close> as
  floats, or the first exception on the way to them.
\<close>

definition factors :: "json \<Rightarrow> exn + float64 \<times> float64" where
  "factors json_data =
     and_then (color_balance json_data) (\<lambda>balance.
     and_then (getitem_int balance 0) (\<lambda>b0.
     and_then (to_double b0) (\<lambda>br.
     and_then (getitem_int balance 1) (\<lambda>b1.
     and_then (to_double b1) (\<lambda>bg.
     Inr (br, bg))))))"

text \<open>The sample coordinate \<open>i / (lut_size - 1)\<close> and the value of a cell.\<close>

definition coord :: "nat \<Rightarrow> float64" where
  "coord i = round_double False i (lut_size - 1)"

definition cell :: "float64 \<Rightarrow> float64 \<Rightarrow> nat \<Rightarrow> nat \<Rightarrow> nat \<Rightarrow> rgb" where
  "cell br bg r g b = (fmul (coord r) br, fmul (coord g) bg, fmul (coord b) bg)"

text \<open>A table \<open>L\<close> with the cells that satisfy \<open>P\<close> overwritten by \<open>v\<close>.\<close>

definition paint :: "(nat \<times> nat \<times> nat \<Rightarrow> bool) \<Rightarrow> (nat \<Rightarrow> nat \<Rightarrow> nat \<Rightarrow> rgb) \<Rightarrow>
    (nat \<times> nat \<times> nat \<Rightarrow> rgb) \<Rightarrow> nat \<times> nat \<times> nat \<Rightarrow> rgb" where
  "paint P v L = (\<lambda>k. if P k then (case k of (r, g, b) \<Rightarrow> v r g b) else L k)"

definition set_cell :: "(nat \<Rightarrow> nat \<Rightarrow> nat \<Rightarrow> rgb) \<Rightarrow> nat \<Rightarrow> nat \<Rightarrow> nat \<Rightarrow> frame \<Rightarrow> frame" where
  "set_cell v r g b \<sigma> = \<sigma>\<lparr>lut := (lut \<sigma>)((r, g, b) := v r g b)\<rparr>"

definition in_cube :: "nat \<times> nat \<times> nat \<Rightarrow> bool" where
  "in_cube k = (case k of (r, g, b) \<Rightarrow> r < lut_size \<and> g < lut_size \<and> b < lut_size)"

subsection \<open>The document, line by line\<close>

definition title_line :: "string \<Rightarrow> string" where
  "title_line t = ''TITLE '' @ [CHR 0x22] @ t @ [CHR 0x22]"

definition size_line :: string where
  "size_line = ''LUT_3D_SIZE '' @ show_nat lut_size"

definition row :: "rgb \<Rightarrow> string" where
  "row v = (case v of (x, y, z) \<Rightarrow> format_6f x @ '' '' @ format_6f y @ '' '' @ format_6f z)"

text \<open>The data lines for the factors \<open>br\<close> and \<open>bg\<close>: red outermost, blue innermost.\<close>

definition rows :: "float64 \<Rightarrow> float64 \<Rightarrow> string list" where
  "rows br bg =
     [row (cell br bg r g b). r \<leftarrow> [0..<lut_size], g \<leftarrow> [0..<lut_size], b \<leftarrow> [0..<lut_size]]"

definition terminate :: "string \<Rightarrow> string" where
  "terminate l = l @ [CHR 0x0A]"

definition cube_lines :: "string \<Rightarrow> float64 \<Rightarrow> float64 \<Rightarrow> string list" where
  "cube_lines t br bg = title_line t # size_line # rows br bg"

definition cube_text :: "string \<Rightarrow> float64 \<Rightarrow> float64 \<Rightarrow> string" where
  "cube_text t br bg = concat (map terminate (cube_lines t br bg))"

text \<open>
  \<open>split_on sep s\<close> is Python's \<open>s.split(sep)\<close> for a one-character separator. The
  lines of a text are the pieces before each newline; what follows the last newline is
  \<open>unterminated\<close>, empty when every line ends with a newline.
\<close>

fun split_on :: "char \<Rightarrow> string \<Rightarrow> string list" where
  "split_on sep [] = [[]]"
| "split_on sep (c # cs) =
     (if c = sep then [] # split_on sep cs
      else case split_on sep cs of [] \<Rightarrow> [[c]] | l # ls \<Rightarrow> (c # l) # ls)"

definition text_lines :: "string \<Rightarrow> string list" where
  "text_lines doc = butlast (split_on (CHR 0x0A) doc)"

definition unterminated :: "string \<Rightarrow> string" where
  "unterminated doc = last (split_on (CHR 0x0A) doc)"

text \<open>
  A fixed-point numeral with six digits after the point: an optional minus sign, at least
  one digit, the point, six digits.
\<close>

definition is_digit :: "char \<Rightarrow> bool" where
  "is_digit c = (c \<in> set ''0123456789'')"


subsection \<open>Numbers in the range of a float\<close>




section \<open>Example inputs\<close>

text \<open>
  A document of the documented shape,
  \<open>{"name": name, "data": {"s": {"colorBalance": balance}}}\<close>.
\<close>

definition document :: "json \<Rightarrow> json \<Rightarrow> json" where
  "document name balance =
     JDict [(''name'', name), (''data'', JDict [(''s'', JDict [(''colorBalance'', balance)])])]"

text \<open>
  In every example the name is a string, so that \<open>py_str\<close> is never consulted; the
  examples pass \<open>py_str0\<close> for it, and run in the frame \<open>frame0\<close>.
\<close>

definition py_str0 :: "json \<Rightarrow> string" where
  "py_str0 v = []"

definition frame0 :: frame where
  "frame0 = \<lparr>lut = np_zeros, output_text = []\<rparr>"

section \<open>Lemmas\<close>

lemma and_then_case: "and_then x f = (case x of Inl e \<Rightarrow> Inl e | Inr v \<Rightarrow> f v)"
  by (cases x) simp_all

lemma for_each_total:
  "(\<And>i \<sigma>. i \<in> set js \<Longrightarrow> body i \<sigma> = Inr (f i \<sigma>)) \<Longrightarrow> for_each js body \<sigma> = Inr (fold f js \<sigma>)"
  by (induction js arbitrary: \<sigma>) simp_all

lemma for_each_raises:
  "body i \<sigma> = Inl e \<Longrightarrow> for_each (i # js) body \<sigma> = Inl e"
  by simp

lemma bit_length_le: "bit_length n \<le> n"
proof (induction n rule: bit_length.induct)
  case (1 n)
  show ?case
  proof (cases "n = 0")
    case True
    then show ?thesis by (simp add: bit_length.simps)
  next
    case False
    with 1 have "bit_length (n div 2) \<le> n div 2" by simp
    moreover have "Suc (n div 2) \<le> n" using False by arith
    ultimately show ?thesis using False by (subst bit_length.simps) simp
  qed
qed

lemma floor_log2_le: "floor_log2 p q \<le> int p"
proof -
  have "int (bit_length p) - int (bit_length q) \<le> int p"
    using bit_length_le [of p] by linarith
  then show ?thesis
    by (simp add: floor_log2_def Let_def)
qed

lemma round_double_finite:
  assumes "int p < 1000"
  shows "round_double s p q \<noteq> Infinity t"
proof -
  define e where "e = max (floor_log2 p q - 52) (- 1074)"
  have "e < 971"
    using floor_log2_le [of p q] assms by (simp add: e_def)
  then have "\<not> 971 \<le> e" and "\<not> 971 < e"
    by simp_all
  then show ?thesis
    unfolding round_double_def Let_def e_def [symmetric] by simp
qed

lemma int_truediv_coord:
  assumes "i < lut_size"
  shows "int_truediv (int i) (int lut_size - 1) = Inr (coord i)"
proof -
  have "round_double False i 32 \<noteq> Infinity t" for t
    using assms by (intro round_double_finite) (simp add: lut_size_def)
  then show ?thesis
    by (simp add: int_truediv_def coord_def lut_size_def split: float64.split)
qed

lemma float_mul_factor: "to_double v = Inr y \<Longrightarrow> float_mul x v = Inr (fmul x y)"
  by (simp add: float_mul_def)

lemma float_mul_raises: "to_double v = Inl e \<Longrightarrow> float_mul x v = Inl e"
  by (simp add: float_mul_def)

lemma fill_cell_factors:
  assumes "r < lut_size" "g < lut_size" "b < lut_size"
  shows "fill_cell json_data r g b \<sigma> =
    (case factors json_data of
       Inl e \<Rightarrow> Inl e
     | Inr (br, bg) \<Rightarrow> Inr (\<sigma>\<lparr>lut := (lut \<sigma>)((r, g, b) := cell br bg r g b)\<rparr>))"
  using assms
  by (simp add: fill_cell_def factors_def color_balance_def apply_color_balance_def cell_def
      int_truediv_coord float_mul_def and_then_case split: sum.split)

lemma for_each3_total:
  assumes "\<And>r g b \<sigma>. r \<in> set R \<Longrightarrow> g \<in> set G \<Longrightarrow> b \<in> set B \<Longrightarrow> body r g b \<sigma> = Inr (f r g b \<sigma>)"
  shows "for_each R (\<lambda>r. for_each G (\<lambda>g. for_each B (body r g))) \<sigma> =
         Inr (fold (\<lambda>r. fold (\<lambda>g. fold (f r g) B) G) R \<sigma>)"
proof -
  have inner: "for_each B (body r g) \<tau> = Inr (fold (f r g) B \<tau>)"
    if "r \<in> set R" "g \<in> set G" for r g \<tau>
    by (rule for_each_total) (simp add: assms that)
  have middle: "for_each G (\<lambda>g. for_each B (body r g)) \<tau> = Inr (fold (\<lambda>g. fold (f r g) B) G \<tau>)"
    if "r \<in> set R" for r \<tau>
    by (rule for_each_total) (simp add: inner that)
  show ?thesis
    by (rule for_each_total) (simp add: middle)
qed

lemma paint_none: "paint (\<lambda>k. False) v L = L"
  by (simp add: paint_def)

lemma paint_paint: "paint Q v (paint P v L) = paint (\<lambda>k. P k \<or> Q k) v L"
  by (auto simp: paint_def fun_eq_iff)

lemma paint_upd: "(L((r, g, b) := v r g b)) = paint (\<lambda>k. k = (r, g, b)) v L"
  by (auto simp: paint_def fun_eq_iff)

lemma set_cell_paint: "set_cell v r g b \<sigma> = \<sigma>\<lparr>lut := paint (\<lambda>k. k = (r, g, b)) v (lut \<sigma>)\<rparr>"
  unfolding set_cell_def paint_upd ..

lemma fold_fill_inner:
  "fold (set_cell v r g) B \<sigma> =
   \<sigma>\<lparr>lut := paint (\<lambda>k. \<exists>b \<in> set B. k = (r, g, b)) v (lut \<sigma>)\<rparr>"
proof (induction B arbitrary: \<sigma>)
  case Nil
  then show ?case by (simp add: paint_none)
next
  case (Cons b B)
  have "(\<lambda>k. k = (r, g, b) \<or> (\<exists>c \<in> set B. k = (r, g, c))) =
        (\<lambda>k. \<exists>c \<in> set (b # B). k = (r, g, c))"
    by auto
  moreover have "fold (set_cell v r g) (b # B) \<sigma> = fold (set_cell v r g) B (set_cell v r g b \<sigma>)"
    by simp
  moreover have "fold (set_cell v r g) B (set_cell v r g b \<sigma>) =
      (set_cell v r g b \<sigma>)\<lparr>lut := paint (\<lambda>k. \<exists>c \<in> set B. k = (r, g, c)) v (lut (set_cell v r g b \<sigma>))\<rparr>"
    by (rule Cons.IH)
  moreover have "(set_cell v r g b \<sigma>)\<lparr>lut := paint (\<lambda>k. \<exists>c \<in> set B. k = (r, g, c)) v (lut (set_cell v r g b \<sigma>))\<rparr> =
      \<sigma>\<lparr>lut := paint (\<lambda>k. k = (r, g, b) \<or> (\<exists>c \<in> set B. k = (r, g, c))) v (lut \<sigma>)\<rparr>"
    by (simp add: set_cell_paint paint_paint)
  ultimately show ?case
    by simp
qed

lemma fold_fill_middle:
  "fold (\<lambda>g. fold (set_cell v r g) B) G \<sigma> =
   \<sigma>\<lparr>lut := paint (\<lambda>k. \<exists>g \<in> set G. \<exists>b \<in> set B. k = (r, g, b)) v (lut \<sigma>)\<rparr>"
proof (induction G arbitrary: \<sigma>)
  case Nil
  then show ?case by (simp add: paint_none)
next
  case (Cons g G)
  have "(\<lambda>k. (\<exists>b \<in> set B. k = (r, g, b)) \<or> (\<exists>h \<in> set G. \<exists>b \<in> set B. k = (r, h, b))) =
        (\<lambda>k. \<exists>h \<in> set (g # G). \<exists>b \<in> set B. k = (r, h, b))"
    by auto
  moreover have "fold (\<lambda>g. fold (set_cell v r g) B) (g # G) \<sigma> =
      fold (\<lambda>g. fold (set_cell v r g) B) G (fold (set_cell v r g) B \<sigma>)"
    by simp
  moreover have "fold (\<lambda>g. fold (set_cell v r g) B) G (fold (set_cell v r g) B \<sigma>) =
      (fold (set_cell v r g) B \<sigma>)\<lparr>lut := paint (\<lambda>k. \<exists>h \<in> set G. \<exists>b \<in> set B. k = (r, h, b)) v
        (lut (fold (set_cell v r g) B \<sigma>))\<rparr>"
    by (rule Cons.IH)
  moreover have "(fold (set_cell v r g) B \<sigma>)\<lparr>lut := paint (\<lambda>k. \<exists>h \<in> set G. \<exists>b \<in> set B. k = (r, h, b)) v
        (lut (fold (set_cell v r g) B \<sigma>))\<rparr> =
      \<sigma>\<lparr>lut := paint (\<lambda>k. (\<exists>b \<in> set B. k = (r, g, b)) \<or> (\<exists>h \<in> set G. \<exists>b \<in> set B. k = (r, h, b))) v (lut \<sigma>)\<rparr>"
    by (simp add: fold_fill_inner paint_paint)
  ultimately show ?case
    by simp
qed

lemma fold_fill_outer:
  "fold (\<lambda>r. fold (\<lambda>g. fold (set_cell v r g) B) G) R \<sigma> =
   \<sigma>\<lparr>lut := paint (\<lambda>k. \<exists>r \<in> set R. \<exists>g \<in> set G. \<exists>b \<in> set B. k = (r, g, b)) v (lut \<sigma>)\<rparr>"
proof (induction R arbitrary: \<sigma>)
  case Nil
  then show ?case by (simp add: paint_none)
next
  case (Cons r R)
  have "(\<lambda>k. (\<exists>g \<in> set G. \<exists>b \<in> set B. k = (r, g, b)) \<or>
             (\<exists>q \<in> set R. \<exists>g \<in> set G. \<exists>b \<in> set B. k = (q, g, b))) =
        (\<lambda>k. \<exists>q \<in> set (r # R). \<exists>g \<in> set G. \<exists>b \<in> set B. k = (q, g, b))"
    by auto
  moreover have "fold (\<lambda>r. fold (\<lambda>g. fold (set_cell v r g) B) G) (r # R) \<sigma> =
      fold (\<lambda>r. fold (\<lambda>g. fold (set_cell v r g) B) G) R (fold (\<lambda>g. fold (set_cell v r g) B) G \<sigma>)"
    by simp
  moreover have "fold (\<lambda>r. fold (\<lambda>g. fold (set_cell v r g) B) G) R (fold (\<lambda>g. fold (set_cell v r g) B) G \<sigma>) =
      (fold (\<lambda>g. fold (set_cell v r g) B) G \<sigma>)\<lparr>lut :=
        paint (\<lambda>k. \<exists>q \<in> set R. \<exists>g \<in> set G. \<exists>b \<in> set B. k = (q, g, b)) v
          (lut (fold (\<lambda>g. fold (set_cell v r g) B) G \<sigma>))\<rparr>"
    by (rule Cons.IH)
  moreover have "(fold (\<lambda>g. fold (set_cell v r g) B) G \<sigma>)\<lparr>lut :=
        paint (\<lambda>k. \<exists>q \<in> set R. \<exists>g \<in> set G. \<exists>b \<in> set B. k = (q, g, b)) v
          (lut (fold (\<lambda>g. fold (set_cell v r g) B) G \<sigma>))\<rparr> =
      \<sigma>\<lparr>lut := paint (\<lambda>k. (\<exists>g \<in> set G. \<exists>b \<in> set B. k = (r, g, b)) \<or>
             (\<exists>q \<in> set R. \<exists>g \<in> set G. \<exists>b \<in> set B. k = (q, g, b))) v (lut \<sigma>)\<rparr>"
    by (simp add: fold_fill_middle paint_paint)
  ultimately show ?case
    by simp
qed

lemma in_cube_upt:
  "(\<lambda>k. \<exists>r \<in> {0..<lut_size}. \<exists>g \<in> {0..<lut_size}. \<exists>b \<in> {0..<lut_size}. k = (r, g, b)) = in_cube"
  by (auto simp: in_cube_def fun_eq_iff)

lemma fill_loops_raise:
  assumes "factors json_data = Inl e"
  shows "fill_lut json_data \<sigma> = Inl e"
proof -
  have pos: "0 < lut_size" by (simp add: lut_size_def)
  have rng: "[0..<lut_size] = 0 # [Suc 0..<lut_size]"
    using pos by (simp add: upt_conv_Cons)
  have "fill_cell json_data 0 0 0 \<sigma> = Inl e"
    using assms pos by (simp add: fill_cell_factors)
  then show ?thesis
    unfolding fill_lut_def rng by simp
qed

lemma fill_loops_return:
  assumes "factors json_data = Inr (br, bg)"
  shows "fill_lut json_data \<sigma> = Inr (\<sigma>\<lparr>lut := paint in_cube (cell br bg) (lut \<sigma>)\<rparr>)"
proof -
  have "for_each [0..<lut_size] (\<lambda>r.
           for_each [0..<lut_size] (\<lambda>g.
             for_each [0..<lut_size] (fill_cell json_data r g))) \<sigma> =
        Inr (fold (\<lambda>r. fold (\<lambda>g. fold (set_cell (cell br bg) r g)
          [0..<lut_size]) [0..<lut_size]) [0..<lut_size] \<sigma>)"
    by (rule for_each3_total) (simp add: fill_cell_factors assms set_cell_def)
  then show ?thesis
    by (simp add: fill_lut_def fold_fill_outer in_cube_upt)
qed

lemma fold_write_inner:
  "fold (\<lambda>b \<sigma>. output_write (data_line (lut \<sigma> (r, g, b))) \<sigma>) B \<sigma> =
   \<sigma>\<lparr>output_text := output_text \<sigma> @ concat (map (\<lambda>b. data_line (lut \<sigma> (r, g, b))) B)\<rparr>"
  by (induction B arbitrary: \<sigma>) (simp_all add: output_write_def)

lemma fold_write_middle:
  "fold (\<lambda>g. fold (\<lambda>b \<sigma>. output_write (data_line (lut \<sigma> (r, g, b))) \<sigma>) B) G \<sigma> =
   \<sigma>\<lparr>output_text := output_text \<sigma> @
      concat (map (\<lambda>g. concat (map (\<lambda>b. data_line (lut \<sigma> (r, g, b))) B)) G)\<rparr>"
  by (induction G arbitrary: \<sigma>) (simp_all add: fold_write_inner)

lemma fold_write_outer:
  "fold (\<lambda>r. fold (\<lambda>g. fold (\<lambda>b \<sigma>. output_write (data_line (lut \<sigma> (r, g, b))) \<sigma>) B) G) R \<sigma> =
   \<sigma>\<lparr>output_text := output_text \<sigma> @
      concat (map (\<lambda>r. concat (map (\<lambda>g. concat (map (\<lambda>b. data_line (lut \<sigma> (r, g, b))) B)) G)) R)\<rparr>"
  by (induction R arbitrary: \<sigma>) (simp_all add: fold_write_middle)

lemma write_lut_return:
  "write_lut \<sigma> =
   Inr (\<sigma>\<lparr>output_text := output_text \<sigma> @
      concat (map (\<lambda>r. concat (map (\<lambda>g. concat (map (\<lambda>b. data_line (lut \<sigma> (r, g, b)))
        [0..<lut_size])) [0..<lut_size])) [0..<lut_size])\<rparr>)"
proof -
  have "for_each [0..<lut_size] (\<lambda>r. for_each [0..<lut_size] (\<lambda>g. for_each [0..<lut_size] (write_cell r g))) \<sigma> =
        Inr (fold (\<lambda>r. fold (\<lambda>g. fold (\<lambda>b \<sigma>. output_write (data_line (lut \<sigma> (r, g, b))) \<sigma>)
          [0..<lut_size]) [0..<lut_size]) [0..<lut_size] \<sigma>)"
    by (rule for_each3_total) (simp add: write_cell_def)
  then show ?thesis
    by (simp only: fold_write_outer write_lut_def)
qed

lemma data_line_row: "data_line v = terminate (row v)"
  by (simp add: data_line_def row_def terminate_def split: prod.split)

lemma concat_map_flatten:
  "concat (map (\<lambda>x. concat (map h (F x))) xs) = concat (map h (concat (map F xs)))"
  by (induction xs) simp_all

lemma concat_map3:
  "concat (map (\<lambda>r. concat (map (\<lambda>g. concat (map (\<lambda>b. h (f r g b)) B)) G)) R) =
   concat (map h (concat (map (\<lambda>r. concat (map (\<lambda>g. map (\<lambda>b. f r g b) B) G)) R)))"
proof -
  have inner: "concat (map (\<lambda>b. h (f r g b)) B) = concat (map h (map (\<lambda>b. f r g b) B))" for r g
    by (simp add: comp_def)
  show ?thesis
    unfolding inner concat_map_flatten ..
qed

lemma written_text:
  "concat (map (\<lambda>r. concat (map (\<lambda>g. concat (map (\<lambda>b.
      data_line (paint in_cube (cell br bg) L (r, g, b))) [0..<lut_size])) [0..<lut_size])) [0..<lut_size]) =
   concat (map terminate (rows br bg))"
proof -
  have "concat (map (\<lambda>r. concat (map (\<lambda>g. concat (map (\<lambda>b.
      data_line (paint in_cube (cell br bg) L (r, g, b))) [0..<lut_size])) [0..<lut_size])) [0..<lut_size]) =
    concat (map (\<lambda>r. concat (map (\<lambda>g. concat (map (\<lambda>b.
      terminate (row (cell br bg r g b))) [0..<lut_size])) [0..<lut_size])) [0..<lut_size])"
    by (intro arg_cong [where f = concat] map_cong refl)
       (simp add: paint_def in_cube_def data_line_row)
  then show ?thesis
    by (simp only: concat_map3 [where h = terminate and f = "\<lambda>r g b. row (cell br bg r g b)"] rows_def)
qed

lemma try_block_returns:
  assumes "factors json_data = Inr (br, bg)" and "getitem_str json_data ''name'' = Inr name"
  shows "try_block py_str json_data \<sigma> = Inr (cube_text (format_value py_str name) br bg, name)"
  by (simp add: try_block_def Let_def fill_loops_return [OF assms(1)] assms(2) write_lut_return
      output_write_def written_text cube_text_def cube_lines_def title_line_def size_line_def
      terminate_def)

lemma try_block_raises_factors:
  assumes "factors json_data = Inl e"
  shows "try_block py_str json_data \<sigma> = Inl e"
  by (simp add: try_block_def Let_def fill_loops_raise [OF assms])

lemma try_block_raises_name:
  assumes "factors json_data = Inr f" and "getitem_str json_data ''name'' = Inl e"
  shows "try_block py_str json_data \<sigma> = Inl e"
proof -
  obtain br bg where "f = (br, bg)" by (cases f)
  with assms show ?thesis
    by (simp add: try_block_def Let_def fill_loops_return)
qed

lemma convert_returns:
  assumes "factors json_data = Inr (br, bg)" and "getitem_str json_data ''name'' = Inr name"
  shows "convert_json_to_lut py_str json_data \<sigma> =
         Inr (cube_text (format_value py_str name) br bg, name)"
  by (simp add: convert_json_to_lut_def try_block_returns [OF assms])

lemma convert_raises_factors:
  assumes "factors json_data = Inl e"
  shows "convert_json_to_lut py_str json_data \<sigma> = Inl (ValueError e)"
  by (simp add: convert_json_to_lut_def try_block_raises_factors [OF assms])

lemma convert_raises_name:
  assumes "factors json_data = Inr f" and "getitem_str json_data ''name'' = Inl e"
  shows "convert_json_to_lut py_str json_data \<sigma> = Inl (ValueError e)"
  by (simp add: convert_json_to_lut_def try_block_raises_name [OF assms])




















lemma digit_char_digit: "is_digit (digit_char d)"
proof -
  have "d mod 10 < length ''0123456789''" by simp
  then have "''0123456789'' ! (d mod 10) \<in> set ''0123456789''"
    by (rule nth_mem)
  then show ?thesis
    by (simp only: is_digit_def digit_char_def)
qed

lemma show_nat_digits: "show_nat n \<noteq> [] \<and> list_all is_digit (show_nat n)"
proof (induction n rule: show_nat.induct)
  case (1 n)
  show ?case
  proof (cases "n < 10")
    case True
    then show ?thesis
      by (subst (1 2) show_nat.simps) (simp add: digit_char_digit)
  next
    case False
    with 1 show ?thesis
      by (subst (1 2) show_nat.simps) (simp add: digit_char_digit)
  qed
qed

lemma six_digits_digits: "length (six_digits k) = 6 \<and> list_all is_digit (six_digits k)"
  by (simp add: six_digits_def digit_char_digit)




lemma nth_concat_uniform:
  assumes "\<And>x. x \<in> set xs \<Longrightarrow> length (f x) = n" and "i < length xs" and "j < n"
  shows "concat (map f xs) ! (i * n + j) = f (xs ! i) ! j"
  using assms
proof (induction xs arbitrary: i)
  case Nil
  then show ?case by simp
next
  case (Cons x xs)
  show ?case
  proof (cases i)
    case 0
    with Cons.prems show ?thesis by (simp add: nth_append)
  next
    case (Suc k)
    with Cons.prems have "concat (map f xs) ! (k * n + j) = f (xs ! k) ! j"
      by (intro Cons.IH) simp_all
    with Suc Cons.prems show ?thesis by (simp add: nth_append)
  qed
qed

lemma length_concat_uniform:
  assumes "\<And>x. x \<in> set xs \<Longrightarrow> length (f x) = n"
  shows "length (concat (map f xs)) = length xs * n"
  using assms by (induction xs) simp_all

lemma length_rows: "length (rows br bg) = lut_size * lut_size * lut_size"
  by (simp add: rows_def length_concat_uniform [where n = "lut_size * lut_size"]
      length_concat_uniform [where n = lut_size])

lemma rows_nth:
  assumes "r < lut_size" "g < lut_size" "b < lut_size"
  shows "rows br bg ! ((r * lut_size + g) * lut_size + b) = row (cell br bg r g b)"
proof -
  define inner where "inner r g = map (\<lambda>b. row (cell br bg r g b)) [0..<lut_size]" for r g
  define middle where "middle r = concat (map (inner r) [0..<lut_size])" for r
  have li: "length (inner r g) = lut_size" for r g
    by (simp add: inner_def)
  have lm: "length (middle r) = lut_size * lut_size" for r
    by (simp add: middle_def length_concat_uniform [where n = lut_size] li)
  have rows: "rows br bg = concat (map middle [0..<lut_size])"
    unfolding rows_def middle_def [abs_def] inner_def [abs_def] ..
  have idx: "(r * lut_size + g) * lut_size + b = r * (lut_size * lut_size) + (g * lut_size + b)"
    by (simp add: algebra_simps)
  have "g * lut_size + b < g * lut_size + lut_size" using assms(3) by simp
  also have "\<dots> = Suc g * lut_size" by simp
  also have "\<dots> \<le> lut_size * lut_size" using assms(2) by (simp only: Suc_le_eq mult_le_mono1 Suc_leI)
  finally have bound: "g * lut_size + b < lut_size * lut_size" .
  have "concat (map middle [0..<lut_size]) ! (r * (lut_size * lut_size) + (g * lut_size + b)) =
      middle ([0..<lut_size] ! r) ! (g * lut_size + b)"
    using assms(1) bound by (intro nth_concat_uniform lm) simp_all
  then have "rows br bg ! ((r * lut_size + g) * lut_size + b) =
      middle ([0..<lut_size] ! r) ! (g * lut_size + b)"
    by (simp only: rows idx)
  also have "\<dots> = middle r ! (g * lut_size + b)"
    using assms(1) by simp
  also have "\<dots> = inner r ([0..<lut_size] ! g) ! b"
    unfolding middle_def using assms(2,3) li by (intro nth_concat_uniform) simp_all
  also have "\<dots> = row (cell br bg r g b)"
    using assms(2,3) by (simp add: inner_def)
  finally show ?thesis .
qed

lemma split_on_nonempty: "split_on sep xs \<noteq> []"
  by (induction xs) (simp_all split: list.split)

lemma split_on_append: "split_on sep (xs @ sep # ys) = split_on sep xs @ split_on sep ys"
proof (induction xs)
  case Nil
  then show ?case by simp
next
  case (Cons c xs)
  obtain l ls where "split_on sep xs = l # ls"
    using split_on_nonempty [of sep xs] by (cases "split_on sep xs") simp_all
  with Cons show ?case by simp
qed

lemma split_on_none: "sep \<notin> set xs \<Longrightarrow> split_on sep xs = [xs]"
  by (induction xs) auto

lemma length_split_on: "length (split_on sep xs) = Suc (length (filter (\<lambda>c. c = sep) xs))"
proof (induction xs)
  case Nil
  then show ?case by simp
next
  case (Cons c xs)
  obtain l ls where "split_on sep xs = l # ls"
    using split_on_nonempty [of sep xs] by (cases "split_on sep xs") simp_all
  with Cons show ?case by auto
qed

lemma split_on_terminated:
  "split_on (CHR 0x0A) (concat (map terminate ls)) = concat (map (split_on (CHR 0x0A)) ls) @ [[]]"
proof (induction ls)
  case Nil
  then show ?case by simp
next
  case (Cons l ls)
  have "concat (map terminate (l # ls)) = l @ CHR 0x0A # concat (map terminate ls)"
    by (simp add: terminate_def)
  with Cons show ?case
    by (simp only: split_on_append) simp
qed

lemma text_lines_terminated:
  "text_lines (concat (map terminate ls)) = concat (map (split_on (CHR 0x0A)) ls)"
  "unterminated (concat (map terminate ls)) = []"
  by (simp_all add: text_lines_def unterminated_def split_on_terminated)

lemma bit_length_0: "bit_length 0 = 0"
  by (subst bit_length.simps) simp

lemma bit_length_Suc_0: "bit_length (Suc 0) = Suc 0"
  by (subst bit_length.simps) (simp add: bit_length_0)

lemma bit_length_1: "bit_length 1 = Suc 0"
  using bit_length_Suc_0 by simp

lemma bit_length_numeral: "bit_length (numeral k) = Suc (bit_length (numeral k div 2))"
  by (subst bit_length.simps) simp

lemma show_nat_0: "show_nat 0 = ''0''"
  by (subst show_nat.simps) (simp add: digit_char_def)

lemma show_nat_1: "show_nat 1 = ''1''"
  by (subst show_nat.simps) (simp add: digit_char_def)

lemma show_nat_Suc_0: "show_nat (Suc 0) = ''1''"
  using show_nat_1 by simp

lemma show_nat_numeral:
  "show_nat (numeral k) =
     (if (numeral k :: nat) < 10 then [digit_char (numeral k)]
      else show_nat (numeral k div 10) @ [digit_char (numeral k)])"
  by (subst show_nat.simps) simp

lemmas evals = bit_length_0 bit_length_Suc_0 bit_length_1 bit_length_numeral
  show_nat_0 show_nat_1 show_nat_Suc_0 show_nat_numeral digit_char_def six_digits_def
  round_double_def floor_log2_def round_half_even_def format_6f_def int_to_float_def
  coord_def cell_def lut_size_def row_def

lemma size_line_eval: "size_line = ''LUT_3D_SIZE 33''"
  by (simp add: size_line_def evals)

lemma digits_no_sep:
  assumes "list_all is_digit xs" and "\<not> is_digit c"
  shows "c \<notin> set xs"
  using assms by (auto simp: list_all_iff)

lemma format_6f_chars:
  assumes "c = CHR 0x0A \<or> c = CHR '' ''"
  shows "c \<notin> set (format_6f x)"
proof (cases x)
  case (Finite s m e)
  define n where "n = round_half_even (m * 2 ^ nat e * 10 ^ 6) (2 ^ nat (- e))"
  have nd: "\<not> is_digit c" and c: "c \<noteq> CHR ''-''" "c \<noteq> CHR ''.''"
    using assms by (auto simp: is_digit_def)
  have "c \<notin> set (show_nat (n div 10 ^ 6))"
    by (rule digits_no_sep [OF _ nd]) (simp add: show_nat_digits)
  moreover have "c \<notin> set (six_digits (n mod 10 ^ 6))"
    by (rule digits_no_sep [OF _ nd]) (simp add: six_digits_digits)
  ultimately show ?thesis using c
    unfolding Finite format_6f_def float64.case Let_def n_def [symmetric] by simp
next
  case (Infinity s)
  with assms show ?thesis by (auto simp: format_6f_def)
next
  case NaN
  with assms show ?thesis by (auto simp: format_6f_def)
qed

lemma row_no_newline: "CHR 0x0A \<notin> set (row v)"
  using format_6f_chars [of "CHR 0x0A"] by (cases v) (simp add: row_def)

lemma rows_no_newline: "l \<in> set (rows br bg) \<Longrightarrow> CHR 0x0A \<notin> set l"
  by (auto simp: rows_def row_no_newline)

lemma size_line_no_newline: "CHR 0x0A \<notin> set size_line"
  by (simp add: size_line_eval)

lemma split_rows: "concat (map (split_on (CHR 0x0A)) (rows br bg)) = rows br bg"
proof -
  have "concat (map (split_on (CHR 0x0A)) ls) = ls" if "\<And>l. l \<in> set ls \<Longrightarrow> CHR 0x0A \<notin> set l" for ls
    using that by (induction ls) (simp_all add: split_on_none)
  then show ?thesis
    using rows_no_newline by blast
qed

lemma text_lines_cube:
  "text_lines (cube_text t br bg) = split_on (CHR 0x0A) (title_line t) @ size_line # rows br bg"
  "unterminated (cube_text t br bg) = []"
  unfolding cube_text_def text_lines_terminated
  by (simp_all add: cube_lines_def split_rows split_on_none [OF size_line_no_newline])

lemma count_title_line:
  "length (split_on (CHR 0x0A) (title_line t)) = Suc (length (filter (\<lambda>c. c = CHR 0x0A) t))"
  by (simp only: length_split_on) (simp add: title_line_def)

lemma length_text_lines_cube:
  "length (text_lines (cube_text t br bg)) = 2 + 33 ^ 3 + length (filter (\<lambda>c. c = CHR 0x0A) t)"
  by (simp add: text_lines_cube count_title_line length_rows lut_size_def)

lemma text_lines_cube_plain:
  assumes "CHR 0x0A \<notin> set t"
  shows "text_lines (cube_text t br bg) = title_line t # size_line # rows br bg"
proof -
  have "CHR 0x0A \<notin> set (title_line t)"
    using assms by (simp add: title_line_def)
  then show ?thesis
    by (simp add: text_lines_cube split_on_none)
qed

lemma cube_text_title:
  "cube_text t br bg = ''TITLE '' @ [CHR 0x22] @ t @ [CHR 0x22, CHR 0x0A] @
     terminate size_line @ concat (map terminate (rows br bg))"
  by (simp add: cube_text_def cube_lines_def title_line_def terminate_def)

lemma convert_inversion:
  assumes "convert_json_to_lut py_str json_data \<sigma> = Inr (doc, filename)"
  obtains br bg where "factors json_data = Inr (br, bg)"
    and "getitem_str json_data ''name'' = Inr filename"
    and "doc = cube_text (format_value py_str filename) br bg"
proof (cases "factors json_data")
  case (Inl e)
  from convert_raises_factors [OF this] assms show ?thesis by simp
next
  case (Inr f)
  obtain br bg where f: "f = (br, bg)" by (cases f)
  show ?thesis
  proof (cases "getitem_str json_data ''name''")
    case (Inl e)
    from convert_raises_name [OF Inr this] assms show ?thesis by simp
  next
    case name: (Inr name)
    have "convert_json_to_lut py_str json_data \<sigma> =
        Inr (cube_text (format_value py_str name) br bg, name)"
      using Inr name unfolding f by (rule convert_returns)
    with assms have "Inr (doc, filename) =
        (Inr (cube_text (format_value py_str name) br bg, name) :: error + string \<times> json)"
      by (rule trans [OF sym])
    then have eq: "filename = name" "doc = cube_text (format_value py_str name) br bg"
      by auto
    show ?thesis
    proof (rule that)
      show "factors json_data = Inr (br, bg)" using Inr f by simp
      show "getitem_str json_data ''name'' = Inr filename" using name eq by simp
      show "doc = cube_text (format_value py_str filename) br bg" using eq by simp
    qed
  qed
qed

lemma factors_list:
  assumes "color_balance json_data = Inr (JList (b0 # b1 # rest))"
  shows "factors json_data =
    and_then (to_double b0) (\<lambda>br. and_then (to_double b1) (\<lambda>bg. Inr (br, bg)))"
  by (simp add: factors_def assms)

lemma factors_raises_balance:
  assumes "color_balance json_data = Inl e"
  shows "factors json_data = Inl e"
  by (simp add: factors_def assms)




lemma document_items:
  "color_balance (document name balance) = Inr balance"
  "getitem_str (document name balance) ''name'' = Inr name"
  by (simp_all add: document_def color_balance_def)

lemma convert_document:
  assumes "to_double b0 = Inr br" and "to_double b1 = Inr bg"
  shows "convert_json_to_lut py_str (document (JStr t) (JList (b0 # b1 # rest))) \<sigma> =
         Inr (cube_text t br bg, JStr t)"
proof -
  have "factors (document (JStr t) (JList (b0 # b1 # rest))) = Inr (br, bg)"
    using assms by (simp add: factors_list document_items)
  then show ?thesis
    using convert_returns [of _ br bg "JStr t" py_str \<sigma>]
    by (simp add: document_items format_value_def)
qed

lemma rows_first: "rows br bg ! 0 = row (cell br bg 0 0 0)"
  using rows_nth [of 0 0 0 br bg] by (simp add: lut_size_def)

lemma rows_last: "rows br bg ! 35936 = row (cell br bg 32 32 32)"
  using rows_nth [of 32 32 32 br bg] by (simp add: lut_size_def)


lemma factors_huge_integer:
  "factors (document name (JList [JInt (2 ^ 1024), JInt 1])) = Inl OverflowError"
proof -
  have "to_double (JInt (2 ^ 1024)) = Inl OverflowError"
    by (simp add: evals)
  then show ?thesis
    by (simp add: factors_list document_items)
qed

section \<open>The claims\<close>

text \<open>
  C1, as amended. When \<open>data.s.colorBalance\<close> is a list whose first two elements are
  numbers that convert to the floats \<open>br\<close> and \<open>bg\<close> (every float does; an integer
  does unless it is too large for a float), the table is filled, and its entry at
  \<open>(r, g, b)\<close>, for \<open>r\<close>, \<open>g\<close>, \<open>b\<close> below \<open>N = 33\<close>, is
  \<open>(r / (N - 1) * br, g / (N - 1) * bg, b / (N - 1) * bg)\<close>: the blue channel is
  scaled by the green factor.
\<close>

theorem grid_entry:
  assumes "color_balance json_data = Inr (JList (b0 # b1 # rest))"
    and "to_double b0 = Inr br" and "to_double b1 = Inr bg"
    and "r < lut_size" and "g < lut_size" and "b < lut_size"
  shows "lut_size = 33 \<and>
    (\<exists>\<sigma>' r_val g_val b_val.
       fill_lut json_data \<sigma> = Inr \<sigma>' \<and>
       int_truediv (int r) (int lut_size - 1) = Inr r_val \<and>
       int_truediv (int g) (int lut_size - 1) = Inr g_val \<and>
       int_truediv (int b) (int lut_size - 1) = Inr b_val \<and>
       lut \<sigma>' (r, g, b) = (fmul r_val br, fmul g_val bg, fmul b_val bg))"
proof -
  have "factors json_data = Inr (br, bg)"
    using assms(2,3) by (simp add: factors_list [OF assms(1)])
  then have filled: "fill_lut json_data \<sigma> = Inr (\<sigma>\<lparr>lut := paint in_cube (cell br bg) (lut \<sigma>)\<rparr>)"
    by (rule fill_loops_return)
  have entry: "lut (\<sigma>\<lparr>lut := paint in_cube (cell br bg) (lut \<sigma>)\<rparr>) (r, g, b) =
      (fmul (coord r) br, fmul (coord g) bg, fmul (coord b) bg)"
    using assms(4-6) by (simp add: paint_def in_cube_def cell_def)
  show ?thesis
  proof (intro conjI exI)
    show "lut_size = 33" by (rule lut_size_def)
    show "fill_lut json_data \<sigma> = Inr (\<sigma>\<lparr>lut := paint in_cube (cell br bg) (lut \<sigma>)\<rparr>)"
      by (rule filled)
    show "int_truediv (int r) (int lut_size - 1) = Inr (coord r)"
      using assms(4) by (rule int_truediv_coord)
    show "int_truediv (int g) (int lut_size - 1) = Inr (coord g)"
      using assms(5) by (rule int_truediv_coord)
    show "int_truediv (int b) (int lut_size - 1) = Inr (coord b)"
      using assms(6) by (rule int_truediv_coord)
    show "lut (\<sigma>\<lparr>lut := paint in_cube (cell br bg) (lut \<sigma>)\<rparr>) (r, g, b) =
        (fmul (coord r) br, fmul (coord g) bg, fmul (coord b) bg)"
      by (rule entry)
  qed
qed

text \<open>
  At the balance \<open>[2, 0.25, null]\<close> the entry at \<open>(32, 16, 8)\<close> is
  \<open>(2.0, 0.125, 0.0625)\<close>.
\<close>

theorem grid_entry_witness:
  "\<exists>\<sigma>'. fill_lut (document (JStr ''Warm'') (JList [JInt 2, JFloat (Finite False 1 (- 2)), JNull])) frame0 = Inr \<sigma>' \<and>
     lut \<sigma>' (32, 16, 8) =
       (Finite False (2 ^ 52) (- 51), Finite False (2 ^ 52) (- 55), Finite False (2 ^ 52) (- 56))"
proof -
  let ?j = "document (JStr ''Warm'') (JList [JInt 2, JFloat (Finite False 1 (- 2)), JNull])"
  have b: "color_balance ?j = Inr (JList (JInt 2 # JFloat (Finite False 1 (- 2)) # [JNull]))"
    by (simp add: document_items)
  have b0: "to_double (JInt 2) = Inr (Finite False (2 ^ 52) (- 51))"
    by (simp add: evals)
  have b1: "to_double (JFloat (Finite False 1 (- 2))) = Inr (Finite False 1 (- 2))"
    by simp
  have r: "32 < lut_size" and g: "16 < lut_size" and bl: "8 < lut_size"
    by (simp_all add: lut_size_def)
  have d: "int_truediv 32 32 = Inr (Finite False (2 ^ 52) (- 52))"
    "int_truediv 16 32 = Inr (Finite False (2 ^ 52) (- 53))"
    "int_truediv 8 32 = Inr (Finite False (2 ^ 52) (- 54))"
    by (simp_all add: int_truediv_def evals)
  from grid_entry [OF b b0 b1 r g bl, of frame0] d show ?thesis
    by (simp add: lut_size_def evals)
qed

text \<open>
  C1 as first stated fails: the balance \<open>[2\<^sup>1\<^sup>0\<^sup>2\<^sup>4, 1]\<close> is a list of two numbers, and
  the table is not filled: the first multiplication raises, the integer being too large
  for a float.
\<close>

theorem huge_integer_fill_raises:
  "color_balance (document (JStr ''Warm'') (JList [JInt (2 ^ 1024), JInt 1])) =
     Inr (JList [JInt (2 ^ 1024), JInt 1]) \<and>
   fill_lut (document (JStr ''Warm'') (JList [JInt (2 ^ 1024), JInt 1])) frame0 = Inl OverflowError"
  using factors_huge_integer by (simp add: document_items fill_loops_raise)










text \<open>
  C5. When \<open>data.s.colorBalance\<close> cannot be read, at whatever level of the path,
  conversion raises its error, carrying the exception of the failed lookup, and returns
  no text. In general a run either raises or returns the complete document: nothing
  partial is returned.
\<close>

theorem missing_color_balance_fails:
  "(color_balance json_data = Inl e \<longrightarrow>
      convert_json_to_lut py_str json_data \<sigma> = Inl (ValueError e)) \<and>
   ((\<exists>e'. convert_json_to_lut py_str json_data \<sigma> = Inl (ValueError e')) \<or>
    (\<exists>name br bg. convert_json_to_lut py_str json_data \<sigma> =
       Inr (cube_text (format_value py_str name) br bg, name)))"
proof
  show "color_balance json_data = Inl e \<longrightarrow>
      convert_json_to_lut py_str json_data \<sigma> = Inl (ValueError e)"
    by (simp add: factors_raises_balance convert_raises_factors)
  show "(\<exists>e'. convert_json_to_lut py_str json_data \<sigma> = Inl (ValueError e')) \<or>
    (\<exists>name br bg. convert_json_to_lut py_str json_data \<sigma> =
       Inr (cube_text (format_value py_str name) br bg, name))"
  proof (cases "convert_json_to_lut py_str json_data \<sigma>")
    case (Inl err)
    then show ?thesis by (cases err) simp
  next
    case (Inr result)
    obtain doc filename where "result = (doc, filename)" by (cases result)
    with Inr have c: "convert_json_to_lut py_str json_data \<sigma> = Inr (doc, filename)" by simp
    then obtain br bg where "doc = cube_text (format_value py_str filename) br bg"
      by (rule convert_inversion)
    with c show ?thesis
      by blast
  qed
qed

text \<open>
  A document without \<open>data\<close>, one without \<open>data.s\<close> and one without
  \<open>data.s.colorBalance\<close>.
\<close>

theorem missing_color_balance_fails_witness:
  "convert_json_to_lut py_str0 (JDict [(''name'', JStr ''Warm'')]) frame0 =
     Inl (ValueError (KeyError (JStr ''data''))) \<and>
   convert_json_to_lut py_str0 (JDict [(''name'', JStr ''Warm''), (''data'', JDict [])]) frame0 =
     Inl (ValueError (KeyError (JStr ''s''))) \<and>
   convert_json_to_lut py_str0
     (JDict [(''name'', JStr ''Warm''), (''data'', JDict [(''s'', JDict [(''gain'', JInt 1)])])]) frame0 =
     Inl (ValueError (KeyError (JStr ''colorBalance'')))"
proof (intro conjI)
  have "color_balance (JDict [(''name'', JStr ''Warm'')]) = Inl (KeyError (JStr ''data''))"
    by (simp add: color_balance_def)
  with missing_color_balance_fails [of "JDict [(''name'', JStr ''Warm'')]" "KeyError (JStr ''data'')" py_str0 frame0]
  show "convert_json_to_lut py_str0 (JDict [(''name'', JStr ''Warm'')]) frame0 =
     Inl (ValueError (KeyError (JStr ''data'')))"
    by simp
  have "color_balance (JDict [(''name'', JStr ''Warm''), (''data'', JDict [])]) = Inl (KeyError (JStr ''s''))"
    by (simp add: color_balance_def)
  with missing_color_balance_fails [of "JDict [(''name'', JStr ''Warm''), (''data'', JDict [])]"
      "KeyError (JStr ''s'')" py_str0 frame0]
  show "convert_json_to_lut py_str0 (JDict [(''name'', JStr ''Warm''), (''data'', JDict [])]) frame0 =
     Inl (ValueError (KeyError (JStr ''s'')))"
    by simp
  have "color_balance (JDict [(''name'', JStr ''Warm''), (''data'', JDict [(''s'', JDict [(''gain'', JInt 1)])])]) =
      Inl (KeyError (JStr ''colorBalance''))"
    by (simp add: color_balance_def)
  with missing_color_balance_fails [of
      "JDict [(''name'', JStr ''Warm''), (''data'', JDict [(''s'', JDict [(''gain'', JInt 1)])])]"
      "KeyError (JStr ''colorBalance'')" py_str0 frame0]
  show "convert_json_to_lut py_str0
     (JDict [(''name'', JStr ''Warm''), (''data'', JDict [(''s'', JDict [(''gain'', JInt 1)])])]) frame0 =
     Inl (ValueError (KeyError (JStr ''colorBalance'')))"
    by simp
qed

text \<open>
  C6, as amended. The title is not validated: for every string name, empty and blank
  ones as well, conversion with a readable balance succeeds, and the document begins
  with the line \<open>TITLE "name"\<close>.
\<close>

theorem title_not_validated:
  assumes "color_balance json_data = Inr (JList (b0 # b1 # rest))"
    and "to_double b0 = Inr br" and "to_double b1 = Inr bg"
    and "getitem_str json_data ''name'' = Inr (JStr title)"
  shows "\<exists>rest_text. convert_json_to_lut py_str json_data \<sigma> =
     Inr (''TITLE '' @ [CHR 0x22] @ title @ [CHR 0x22, CHR 0x0A] @ rest_text, JStr title)"
proof -
  have "factors json_data = Inr (br, bg)"
    using assms(2,3) by (simp add: factors_list [OF assms(1)])
  then have "convert_json_to_lut py_str json_data \<sigma> = Inr (cube_text title br bg, JStr title)"
    using convert_returns [of json_data br bg "JStr title" py_str \<sigma>] assms(4)
    by (simp add: format_value_def)
  then show ?thesis
    by (simp only: cube_text_title) blast
qed

text \<open>
  A name of three spaces.
\<close>

theorem title_not_validated_witness:
  "\<exists>rest_text. convert_json_to_lut py_str0
      (document (JStr ''   '') (JList [JFloat (Finite False 1 0), JFloat (Finite False 1 (- 1))])) frame0 =
     Inr (''TITLE '' @ [CHR 0x22] @ ''   '' @ [CHR 0x22, CHR 0x0A] @ rest_text, JStr ''   '')"
  by (rule title_not_validated [where ?b0.0 = "JFloat (Finite False 1 0)" and ?b1.0 = "JFloat (Finite False 1 (- 1))"
        and rest = "[]"])
     (simp_all add: document_items)

text \<open>
  C6 as first stated fails: with the empty name conversion succeeds, and the title line
  is \<open>TITLE ""\<close>.
\<close>

theorem empty_title_accepted:
  "convert_json_to_lut py_str0 (document (JStr []) (JList [JFloat (Finite False 1 0), JFloat (Finite False 1 (- 1))])) frame0 =
     Inr (cube_text [] (Finite False 1 0) (Finite False 1 (- 1)), JStr []) \<and>
   text_lines (cube_text [] (Finite False 1 0) (Finite False 1 (- 1))) ! 0 = ''TITLE '' @ [CHR 0x22, CHR 0x22]"
  by (simp add: convert_document text_lines_cube_plain title_line_def)

text \<open>
  C7. Conversion is deterministic: the result, document text and file name alike, is the
  same whatever the table and the text buffer held before the run, hence the same on a
  second run with the same input.
\<close>

theorem conversion_deterministic:
  "convert_json_to_lut py_str json_data \<sigma> = convert_json_to_lut py_str json_data \<sigma>'"
proof (cases "factors json_data")
  case (Inl e)
  then show ?thesis by (simp add: convert_raises_factors)
next
  case (Inr f)
  obtain br bg where f: "f = (br, bg)" by (cases f)
  show ?thesis
  proof (cases "getitem_str json_data ''name''")
    case (Inl e)
    with Inr show ?thesis by (simp add: convert_raises_name)
  next
    case name: (Inr name)
    with Inr f show ?thesis by (simp add: convert_returns)
  qed
qed

text \<open>
  C8, as amended. For the input
  \<open>{"name": "Test", "data": {"s": {"colorBalance": [1.0, 0.5, 0.5]}}}\<close> conversion
  succeeds at the fixed resolution 33: the document has \<open>2 + 33\<^sup>3\<close> lines, its first
  data line is \<open>0.000000 0.000000 0.000000\<close> and its last data line is
  \<open>1.000000 0.500000 0.500000\<close>.
\<close>

theorem test_scenario:
  "convert_json_to_lut py_str
     (document (JStr ''Test'')
        (JList [JFloat (Finite False 1 0), JFloat (Finite False 1 (- 1)), JFloat (Finite False 1 (- 1))])) \<sigma> =
   Inr (cube_text ''Test'' (Finite False 1 0) (Finite False 1 (- 1)), JStr ''Test'') \<and>
   length (text_lines (cube_text ''Test'' (Finite False 1 0) (Finite False 1 (- 1)))) = 2 + 33 ^ 3 \<and>
   text_lines (cube_text ''Test'' (Finite False 1 0) (Finite False 1 (- 1))) ! 1 = ''LUT_3D_SIZE 33'' \<and>
   text_lines (cube_text ''Test'' (Finite False 1 0) (Finite False 1 (- 1))) ! 2 =
     ''0.000000 0.000000 0.000000'' \<and>
   text_lines (cube_text ''Test'' (Finite False 1 0) (Finite False 1 (- 1))) ! (1 + 33 ^ 3) =
     ''1.000000 0.500000 0.500000''"
proof -
  have first: "row (cell (Finite False 1 0) (Finite False 1 (- 1)) 0 0 0) = ''0.000000 0.000000 0.000000''"
    by (simp add: evals)
  have last: "row (cell (Finite False 1 0) (Finite False 1 (- 1)) 32 32 32) = ''1.000000 0.500000 0.500000''"
    by (simp add: evals)
  show ?thesis
    using first last
    by (simp add: convert_document text_lines_cube_plain size_line_eval length_rows lut_size_def
        rows_first rows_last)
qed

text \<open>
  C8 as first stated fails: the resolution is not 2. The size line of the document is
  \<open>LUT_3D_SIZE 33\<close> and there are 35937 data lines, not 8.
\<close>

theorem test_scenario_resolution:
  "convert_json_to_lut py_str0
     (document (JStr ''Test'')
        (JList [JFloat (Finite False 1 0), JFloat (Finite False 1 (- 1)), JFloat (Finite False 1 (- 1))])) frame0 =
   Inr (cube_text ''Test'' (Finite False 1 0) (Finite False 1 (- 1)), JStr ''Test'') \<and>
   text_lines (cube_text ''Test'' (Finite False 1 0) (Finite False 1 (- 1))) ! 1 = ''LUT_3D_SIZE 33'' \<and>
   length (drop 2 (text_lines (cube_text ''Test'' (Finite False 1 0) (Finite False 1 (- 1))))) = 35937"
  by (simp add: convert_document text_lines_cube_plain size_line_eval length_rows lut_size_def)

text \<open>
  C9, as amended. The download name is the title with each space character (and no
  other character) replaced by an underscore, followed by \<open>.cube\<close>. The replacement
  is made for the download name only: the document has the title as it is.
\<close>

theorem download_name_spaces:
  "length (download_name t) = length t + 5 \<and>
   drop (length t) (download_name t) = ''.cube'' \<and>
   (\<forall>i < length t. download_name t ! i = (if t ! i = CHR '' '' then CHR ''_'' else t ! i)) \<and>
   (convert_json_to_lut py_str json_data \<sigma> = Inr (doc, JStr t) \<longrightarrow>
      (\<exists>rest. doc = ''TITLE '' @ [CHR 0x22] @ t @ [CHR 0x22, CHR 0x0A] @ rest))"
proof (intro conjI impI allI)
  show "length (download_name t) = length t + 5"
    by (simp add: download_name_def)
  show "drop (length t) (download_name t) = ''.cube''"
    by (simp add: download_name_def)
  show "download_name t ! i = (if t ! i = CHR '' '' then CHR ''_'' else t ! i)" if "i < length t" for i
    using that by (simp add: download_name_def nth_append)
  show "\<exists>rest. doc = ''TITLE '' @ [CHR 0x22] @ t @ [CHR 0x22, CHR 0x0A] @ rest"
    if "convert_json_to_lut py_str json_data \<sigma> = Inr (doc, JStr t)"
    using that
  proof (rule convert_inversion)
    fix br bg
    assume "doc = cube_text (format_value py_str (JStr t)) br bg"
    then have "doc = cube_text t br bg"
      by (simp add: format_value_def)
    then show ?thesis
      using cube_text_title [of t br bg] by blast
  qed
qed

text \<open>
  The title \<open>my warm lut\<close>: the download name is \<open>my_warm_lut.cube\<close>, the title line has the
  spaces.
\<close>

theorem download_name_spaces_witness:
  "download_name ''my warm lut'' = ''my_warm_lut.cube'' \<and>
   convert_json_to_lut py_str0
     (document (JStr ''my warm lut'') (JList [JFloat (Finite False 1 0), JFloat (Finite False 1 (- 1))])) frame0 =
     Inr (cube_text ''my warm lut'' (Finite False 1 0) (Finite False 1 (- 1)), JStr ''my warm lut'') \<and>
   take 20 (cube_text ''my warm lut'' (Finite False 1 0) (Finite False 1 (- 1))) =
     ''TITLE '' @ [CHR 0x22] @ ''my warm lut'' @ [CHR 0x22, CHR 0x0A]"
proof -
  let ?j = "document (JStr ''my warm lut'') (JList [JFloat (Finite False 1 0), JFloat (Finite False 1 (- 1))])"
  have c: "convert_json_to_lut py_str0 ?j frame0 =
     Inr (cube_text ''my warm lut'' (Finite False 1 0) (Finite False 1 (- 1)), JStr ''my warm lut'')"
    by (simp add: convert_document)
  from download_name_spaces [of "''my warm lut''" py_str0 ?j frame0
      "cube_text ''my warm lut'' (Finite False 1 0) (Finite False 1 (- 1))"] c
  obtain rest where "cube_text ''my warm lut'' (Finite False 1 0) (Finite False 1 (- 1)) =
      ''TITLE '' @ [CHR 0x22] @ ''my warm lut'' @ [CHR 0x22, CHR 0x0A] @ rest"
    by blast
  then have "take 20 (cube_text ''my warm lut'' (Finite False 1 0) (Finite False 1 (- 1))) =
     ''TITLE '' @ [CHR 0x22] @ ''my warm lut'' @ [CHR 0x22, CHR 0x0A]"
    by simp
  moreover have "download_name ''my warm lut'' = ''my_warm_lut.cube''"
    by (simp add: download_name_def)
  ultimately show ?thesis
    using c by simp
qed

text \<open>
  C9 as first stated fails: a tab is a whitespace character, and it stays in the
  download name.
\<close>

theorem tab_kept_in_download_name:
  "download_name [CHR ''a'', CHR 0x09, CHR ''b''] = [CHR ''a'', CHR 0x09, CHR ''b''] @ ''.cube''"
  by (simp add: download_name_def)

text \<open>
  C10. The title stands between the double quotes as it is, nothing escaped; the
  number of lines of the document is \<open>2 + 33\<^sup>3\<close> plus the number of newlines in the
  title.
\<close>

theorem title_verbatim:
  assumes "convert_json_to_lut py_str json_data \<sigma> = Inr (doc, JStr t)"
  shows "(\<exists>rest. doc = ''TITLE '' @ [CHR 0x22] @ t @ [CHR 0x22, CHR 0x0A] @ rest) \<and>
         length (text_lines doc) = 2 + 33 ^ 3 + length (filter (\<lambda>c. c = CHR 0x0A) t)"
  using assms
proof (rule convert_inversion)
  fix br bg
  assume "doc = cube_text (format_value py_str (JStr t)) br bg"
  then have doc: "doc = cube_text t br bg"
    by (simp add: format_value_def)
  show ?thesis
    unfolding doc length_text_lines_cube using cube_text_title [of t br bg] by blast
qed

text \<open>
  A name with a double quote and a newline in it: conversion succeeds, both stand in
  the text as they are, and the document has \<open>35940 > 2 + 33\<^sup>3\<close> lines.
\<close>

theorem title_verbatim_witness:
  "convert_json_to_lut py_str0
     (document (JStr [CHR ''a'', CHR 0x22, CHR ''b'', CHR 0x0A, CHR ''c''])
        (JList [JFloat (Finite False 1 0), JFloat (Finite False 1 (- 1))])) frame0 =
   Inr (cube_text [CHR ''a'', CHR 0x22, CHR ''b'', CHR 0x0A, CHR ''c''] (Finite False 1 0) (Finite False 1 (- 1)),
        JStr [CHR ''a'', CHR 0x22, CHR ''b'', CHR 0x0A, CHR ''c'']) \<and>
   take 14 (cube_text [CHR ''a'', CHR 0x22, CHR ''b'', CHR 0x0A, CHR ''c''] (Finite False 1 0) (Finite False 1 (- 1))) =
     ''TITLE '' @ [CHR 0x22, CHR ''a'', CHR 0x22, CHR ''b'', CHR 0x0A, CHR ''c'', CHR 0x22, CHR 0x0A] \<and>
   length (text_lines (cube_text [CHR ''a'', CHR 0x22, CHR ''b'', CHR 0x0A, CHR ''c''] (Finite False 1 0) (Finite False 1 (- 1)))) =
     35940"
proof -
  let ?t = "[CHR ''a'', CHR 0x22, CHR ''b'', CHR 0x0A, CHR ''c'']"
  let ?j = "document (JStr ?t) (JList [JFloat (Finite False 1 0), JFloat (Finite False 1 (- 1))])"
  have "factors ?j = Inr (Finite False 1 0, Finite False 1 (- 1))"
    by (simp add: factors_def document_items)
  then have c: "convert_json_to_lut py_str0 ?j frame0 =
      Inr (cube_text ?t (Finite False 1 0) (Finite False 1 (- 1)), JStr ?t)"
    using convert_returns [of ?j _ _ "JStr ?t" py_str0 frame0]
    by (simp add: document_items format_value_def)
  from title_verbatim [OF c] c show ?thesis
    by auto
qed

end
